theory Spec2Isabelle
  imports Main "HOL-Library.Multiset"
begin

section \<open>The backend tables\<close>

text \<open>
  The dashboard keeps no authoritative state of its own: every handler issues
  \<^verbatim>\<open>supabase.from(table).update(fields).eq(column, value)\<close> calls against the
  backend and reads the \<^verbatim>\<open>error\<close> of the answer. The model keeps the three tables
  the lifecycle handlers write to, as lists of rows.

  A row of \<^verbatim>\<open>workshop_tasks\<close>: the fields of \<^verbatim>\<open>interface Task\<close>
  (WorkshopTasksTab.tsx) and the \<^verbatim>\<open>workshop_id\<close> column the queries filter on.
  The field \<^verbatim>\<open>id\<close> is written \<open>t_id\<close>.
\<close>

record Task =
  t_id :: string
  title :: string
  description :: "string option"
  points :: int
  timer_minutes :: "int option"
  is_active :: bool
  is_ended :: bool
  task_order :: int
  start_time :: "string option"
  workshop_id :: string

text \<open>
  A row of \<^verbatim>\<open>workshops\<close>; \<^verbatim>\<open>status\<close> is a nullable text column
  (\<^verbatim>\<open>status: string | null\<close> in AdminWorkshopDetail.tsx).
\<close>

record Workshop =
  w_id :: string
  w_title :: string
  status :: "string option"
  updated_at :: "string option"

text \<open>
  A row of \<^verbatim>\<open>workshop_leaderboard\<close>: the columns \<^verbatim>\<open>fetchLeaderboard\<close> selects
  (\<^verbatim>\<open>interface LeaderboardEntry\<close>; the joined \<^verbatim>\<open>workshop_groups\<close> and
  \<^verbatim>\<open>members\<close> are display data no handler reads). Scores and ranks are integer
  columns.
\<close>

record LeaderboardEntry =
  e_id :: string
  group_id :: string
  total_score :: int
  tasks_completed :: int
  rank :: "int option"

record backend =
  workshops :: "Workshop list"
  workshop_tasks :: "Task list"
  workshop_leaderboard :: "LeaderboardEntry list"

subsection \<open>Update requests\<close>

text \<open>
  The object passed to \<^verbatim>\<open>.update({...})\<close> names the columns to overwrite; a column
  that is not named keeps its value. \<open>None\<close> stands for "not named".
\<close>

record task_patch =
  set_is_active :: "bool option"
  set_is_ended :: "bool option"
  set_start_time :: "string option option"

record workshop_patch =
  set_status :: "string option"
  set_updated_at :: "string option"

record leaderboard_patch =
  set_rank :: "int option"
  set_total_score :: "int option"

text \<open>The two filters used on \<^verbatim>\<open>workshop_tasks\<close>: \<^verbatim>\<open>.eq('id', v)\<close> and
  \<^verbatim>\<open>.eq('workshop_id', v)\<close>.\<close>

datatype task_filter = TaskIdEq string | TaskWorkshopIdEq string

datatype request =
    UpdateWorkshopTasks task_patch task_filter
  | UpdateWorkshops workshop_patch string
  | UpdateWorkshopLeaderboard leaderboard_patch string

definition apply_task_patch :: "task_patch \<Rightarrow> Task \<Rightarrow> Task" where
  "apply_task_patch p t =
     t\<lparr> is_active := (case set_is_active p of None \<Rightarrow> is_active t | Some v \<Rightarrow> v),
        is_ended := (case set_is_ended p of None \<Rightarrow> is_ended t | Some v \<Rightarrow> v),
        start_time := (case set_start_time p of None \<Rightarrow> start_time t | Some v \<Rightarrow> v) \<rparr>"

definition apply_workshop_patch :: "workshop_patch \<Rightarrow> Workshop \<Rightarrow> Workshop" where
  "apply_workshop_patch p w =
     w\<lparr> status := (case set_status p of None \<Rightarrow> status w | Some v \<Rightarrow> Some v),
        updated_at := (case set_updated_at p of None \<Rightarrow> updated_at w | Some v \<Rightarrow> Some v) \<rparr>"

definition apply_leaderboard_patch :: "leaderboard_patch \<Rightarrow> LeaderboardEntry \<Rightarrow> LeaderboardEntry" where
  "apply_leaderboard_patch p e =
     e\<lparr> rank := (case set_rank p of None \<Rightarrow> rank e | Some v \<Rightarrow> Some v),
        total_score := (case set_total_score p of None \<Rightarrow> total_score e | Some v \<Rightarrow> v) \<rparr>"

fun task_matches :: "task_filter \<Rightarrow> Task \<Rightarrow> bool" where
  "task_matches (TaskIdEq v) t = (t_id t = v)"
| "task_matches (TaskWorkshopIdEq v) t = (workshop_id t = v)"

text \<open>An update rewrites every row its filter selects and no other row.\<close>

fun apply_request :: "request \<Rightarrow> backend \<Rightarrow> backend" where
  "apply_request (UpdateWorkshopTasks p f) b =
     b\<lparr> workshop_tasks :=
          map (\<lambda>t. if task_matches f t then apply_task_patch p t else t) (workshop_tasks b) \<rparr>"
| "apply_request (UpdateWorkshops p v) b =
     b\<lparr> workshops :=
          map (\<lambda>w. if w_id w = v then apply_workshop_patch p w else w) (workshops b) \<rparr>"
| "apply_request (UpdateWorkshopLeaderboard p v) b =
     b\<lparr> workshop_leaderboard :=
          map (\<lambda>e. if e_id e = v then apply_leaderboard_patch p e else e) (workshop_leaderboard b) \<rparr>"

text \<open>
  The answer of one awaited call: \<open>Ok\<close> when its \<^verbatim>\<open>error\<close> is null. A call that
  answers with an error has written nothing.
\<close>

datatype outcome = Ok | Failed

fun perform :: "outcome \<Rightarrow> request \<Rightarrow> backend \<Rightarrow> backend" where
  "perform Ok r b = apply_request r b"
| "perform Failed r b = b"

subsection \<open>Notices\<close>

text \<open>
  The \<^verbatim>\<open>toast({ title, variant })\<close> calls of the handlers, one constructor per
  message; \<open>destructive\<close> tells the ones raised with \<^verbatim>\<open>variant: "destructive"\<close>.
\<close>

datatype toast =
    CannotActivateEndedTask
  | ErrorTogglingTask
  | TaskDeactivated
  | TaskActivated
  | ErrorEndingTask
  | TaskEndedNextActive string
  | TaskEndedNoMoreTasks
  | ErrorStartingWorkshop
  | WorkshopStarted
  | ErrorEndingWorkshop
  | WorkshopCompleted
  | LeaderboardRefreshed
  | ErrorAdjustingPoints
  | PointsAdjusted int

fun destructive :: "toast \<Rightarrow> bool" where
  "destructive CannotActivateEndedTask = True"
| "destructive ErrorTogglingTask = True"
| "destructive ErrorEndingTask = True"
| "destructive ErrorStartingWorkshop = True"
| "destructive ErrorEndingWorkshop = True"
| "destructive ErrorAdjustingPoints = True"
| "destructive _ = False"

text \<open>
  What one run of a handler leaves behind: the backend, the requests it sent (in order,
  whatever their outcome) and the notices it raised.
\<close>

record run =
  db :: backend
  sent :: "request list"
  toasts :: "toast list"

section \<open>Numbers\<close>

text \<open>
  \<^verbatim>\<open>task_order\<close>, \<^verbatim>\<open>total_score\<close> and the points adjustment are TypeScript
  \<^verbatim>\<open>number\<close>s, that is IEEE doubles, and the ones the handlers meet hold integers
  (integer columns, \<^verbatim>\<open>parseInt\<close>). The model keeps such a value as the \<open>int\<close> it
  holds. A sum of two of them is the double nearest to the exact sum, ties going to the
  even significand: exact up to \<open>2 ^ 53\<close> in magnitude, rounded beyond, so that
  \<open>2 ^ 53 + 1\<close> is \<open>2 ^ 53\<close> again.

  \<open>spacing 1 m\<close> is the distance between neighbouring doubles at the magnitude \<open>m\<close>:
  the least power of two \<open>u\<close> with \<open>m div u < 2 ^ 53\<close>, the significand having 53
  bits. \<open>to_double\<close> rounds an integer to a multiple of that distance. (Sums of
  magnitude \<open>2 ^ 1024\<close> and more, which are not finite doubles, are outside the model.)
\<close>

function spacing :: "nat \<Rightarrow> nat \<Rightarrow> nat" where
  "spacing u m = (if u = 0 \<or> m div u < 9007199254740992 then u else spacing (2 * u) m)"
  by pat_completeness auto
termination
proof (relation "measure (\<lambda>(u, m). m div u)")
  show "wf (measure (\<lambda>(u, m). m div u))" by simp
next
  fix u m :: nat
  assume "\<not> (u = 0 \<or> m div u < 9007199254740992)"
  then have "0 < m div u" by simp
  moreover have "m div (2 * u) = (m div u) div 2"
    by (simp add: div_mult2_eq mult.commute)
  ultimately have "m div (2 * u) < m div u" by simp
  then show "((2 * u, m), (u, m)) \<in> measure (\<lambda>(u, m). m div u)" by simp
qed

definition to_double :: "int \<Rightarrow> int" where
  "to_double n =
     (let m = nat \<bar>n\<bar>;
          u = spacing 1 m;
          q = m div u;
          r = m mod u;
          k = (if 2 * r < u \<or> (2 * r = u \<and> even q) then q else q + 1)
      in sgn n * int (k * u))"

text \<open>The \<^verbatim>\<open>+\<close> of two numbers that hold integers.\<close>

definition js_add :: "int \<Rightarrow> int \<Rightarrow> int" where
  "js_add x y = to_double (x + y)"

text \<open>\<^verbatim>\<open>Number.isSafeInteger\<close>: the integers of magnitude at most \<open>2 ^ 53 - 1\<close>.\<close>

definition safe_integer :: "int \<Rightarrow> bool" where
  "safe_integer n = (\<bar>n\<bar> \<le> 9007199254740991)"

section \<open>Task sequencer (WorkshopTasksTab.tsx)\<close>

text \<open>
  \<^verbatim>\<open>toggleTaskActive(task)\<close>: an ended task is refused before any request; otherwise
  the row with the task's id gets the opposite \<^verbatim>\<open>is_active\<close> and a fresh or cleared
  \<^verbatim>\<open>start_time\<close>. \<open>now\<close> is \<^verbatim>\<open>new Date().toISOString()\<close>.
\<close>

definition toggleTaskActive :: "outcome \<Rightarrow> string \<Rightarrow> Task \<Rightarrow> backend \<Rightarrow> run" where
  "toggleTaskActive w now task b =
     (if is_ended task then
        \<lparr> db = b, sent = [], toasts = [CannotActivateEndedTask] \<rparr>
      else
        let r = UpdateWorkshopTasks
                  \<lparr> set_is_active = Some (\<not> is_active task),
                    set_is_ended = None,
                    set_start_time = Some (if \<not> is_active task then Some now else None) \<rparr>
                  (TaskIdEq (t_id task))
        in \<lparr> db = perform w r b, sent = [r],
             toasts = [case w of Failed \<Rightarrow> ErrorTogglingTask
                       | Ok \<Rightarrow> if is_active task then TaskDeactivated else TaskActivated] \<rparr>)"

text \<open>
  \<^verbatim>\<open>handleEndTask(task)\<close>, with \<open>tasks\<close> the in-memory list of the component,
  \<open>confirmed\<close> the answer to the \<^verbatim>\<open>confirm(...)\<close> dialog, \<open>w1\<close> the outcome of the
  write that ends the task and \<open>w2\<close> the outcome of the write that activates the next
  one (awaited, its answer discarded). The order looked for is the number
  \<^verbatim>\<open>task.task_order + 1\<close>.
\<close>

definition handleEndTask ::
  "bool \<Rightarrow> outcome \<Rightarrow> outcome \<Rightarrow> string \<Rightarrow> Task list \<Rightarrow> Task \<Rightarrow> backend \<Rightarrow> run" where
  "handleEndTask confirmed w1 w2 now tasks task b =
     (if \<not> confirmed then \<lparr> db = b, sent = [], toasts = [] \<rparr>
      else
        let r1 = UpdateWorkshopTasks
                   \<lparr> set_is_active = Some False, set_is_ended = Some True, set_start_time = None \<rparr>
                   (TaskIdEq (t_id task))
        in case w1 of
             Failed \<Rightarrow> \<lparr> db = b, sent = [r1], toasts = [ErrorEndingTask] \<rparr>
           | Ok \<Rightarrow>
               (case find (\<lambda>t. task_order t = js_add (task_order task) 1 \<and> \<not> is_ended t)
                       tasks of
                  Some nextTask \<Rightarrow>
                    let r2 = UpdateWorkshopTasks
                               \<lparr> set_is_active = Some True, set_is_ended = None,
                                 set_start_time = Some (Some now) \<rparr>
                               (TaskIdEq (t_id nextTask))
                    in \<lparr> db = perform w2 r2 (apply_request r1 b), sent = [r1, r2],
                         toasts = [TaskEndedNextActive (title nextTask)] \<rparr>
                | None \<Rightarrow>
                    \<lparr> db = apply_request r1 b, sent = [r1], toasts = [TaskEndedNoMoreTasks] \<rparr>))"

section \<open>Workshop lifecycle (WorkshopOverviewTab.tsx)\<close>

text \<open>
  The overview tab also keeps the status it shows, \<^verbatim>\<open>workshopStatus\<close>, in component
  state; a run of one of its handlers returns the new value with the backend.
\<close>

record overview_run = run +
  workshopStatus :: string

text \<open>
  The two buttons of the control panel are rendered under
  \<^verbatim>\<open>workshopStatus !== 'live'\<close> (Start Workshop) and
  \<^verbatim>\<open>workshopStatus === 'live'\<close> (End Workshop).
\<close>

definition start_button_shown :: "string \<Rightarrow> bool" where
  "start_button_shown ws = (ws \<noteq> ''live'')"

definition end_button_shown :: "string \<Rightarrow> bool" where
  "end_button_shown ws = (ws = ''live'')"

text \<open>\<^verbatim>\<open>handleStartWorkshop\<close>: one write, \<^verbatim>\<open>{ status: 'live', updated_at: now }\<close>,
  on the row of the workshop.\<close>

definition handleStartWorkshop ::
  "outcome \<Rightarrow> string \<Rightarrow> string \<Rightarrow> string \<Rightarrow> backend \<Rightarrow> overview_run" where
  "handleStartWorkshop w now workshopId ws b =
     (let r = UpdateWorkshops \<lparr> set_status = Some ''live'', set_updated_at = Some now \<rparr> workshopId
      in case w of
           Failed \<Rightarrow>
             \<lparr> db = b, sent = [r], toasts = [ErrorStartingWorkshop], workshopStatus = ws \<rparr>
         | Ok \<Rightarrow>
             \<lparr> db = apply_request r b, sent = [r], toasts = [WorkshopStarted],
               workshopStatus = ''live'' \<rparr>)"

text \<open>
  \<^verbatim>\<open>handleEndWorkshop\<close>: the bulk write on the tasks of the workshop is awaited and
  its answer dropped; the status write follows, and only its \<^verbatim>\<open>error\<close> is read.
  \<open>w1\<close> and \<open>w2\<close> are the outcomes of the two writes.
\<close>

definition handleEndWorkshop ::
  "outcome \<Rightarrow> outcome \<Rightarrow> string \<Rightarrow> string \<Rightarrow> backend \<Rightarrow> overview_run" where
  "handleEndWorkshop w1 w2 workshopId ws b =
     (let r1 = UpdateWorkshopTasks
                 \<lparr> set_is_active = Some False, set_is_ended = Some True, set_start_time = None \<rparr>
                 (TaskWorkshopIdEq workshopId);
          b1 = perform w1 r1 b;
          r2 = UpdateWorkshops \<lparr> set_status = Some ''completed'', set_updated_at = None \<rparr>
                 workshopId
      in case w2 of
           Failed \<Rightarrow>
             \<lparr> db = b1, sent = [r1, r2], toasts = [ErrorEndingWorkshop], workshopStatus = ws \<rparr>
         | Ok \<Rightarrow>
             \<lparr> db = apply_request r2 b1, sent = [r1, r2], toasts = [WorkshopCompleted],
               workshopStatus = ''completed'' \<rparr>)"

section \<open>Leaderboard (WorkshopLeaderboardTab, in WorkshopParticipantsTab.tsx)\<close>

text \<open>
  \<^verbatim>\<open>handleAdjustPoints\<close>: nothing happens while no entry is selected; otherwise the
  selected entry's in-memory score plus the adjustment, a sum of numbers, is written to
  the row with its id. The adjustment is an integer (\<^verbatim>\<open>parseInt(...) || 0\<close>, or
  steps of ten).
\<close>

definition handleAdjustPoints ::
  "outcome \<Rightarrow> LeaderboardEntry option \<Rightarrow> int \<Rightarrow> backend \<Rightarrow> run" where
  "handleAdjustPoints w adjustingEntry pointsAdjustment b =
     (case adjustingEntry of
        None \<Rightarrow> \<lparr> db = b, sent = [], toasts = [] \<rparr>
      | Some e \<Rightarrow>
          let newScore = js_add (total_score e) pointsAdjustment;
              r = UpdateWorkshopLeaderboard
                    \<lparr> set_rank = None, set_total_score = Some newScore \<rparr> (e_id e)
          in \<lparr> db = perform w r b, sent = [r],
               toasts = [case w of Failed \<Rightarrow> ErrorAdjustingPoints
                         | Ok \<Rightarrow> PointsAdjusted pointsAdjustment] \<rparr>)"

text \<open>
  \<^verbatim>\<open>Array.prototype.sort(compare)\<close> belongs to the JavaScript runtime. ECMAScript
  fixes its result for a consistent comparator: the elements in an order where
  \<open>compare a b > 0\<close> never holds for \<open>a\<close> before \<open>b\<close>, elements that compare equal
  keeping their order. \<open>js_sort\<close> computes that list by insertion from the right: an
  element moves behind those it compares greater than, and behind no other.
\<close>

fun js_insert :: "('a \<Rightarrow> 'a \<Rightarrow> int) \<Rightarrow> 'a \<Rightarrow> 'a list \<Rightarrow> 'a list" where
  "js_insert cmp x [] = [x]"
| "js_insert cmp x (y # ys) = (if cmp x y \<le> 0 then x # y # ys else y # js_insert cmp x ys)"

definition js_sort :: "('a \<Rightarrow> 'a \<Rightarrow> int) \<Rightarrow> 'a list \<Rightarrow> 'a list" where
  "js_sort cmp xs = foldr (js_insert cmp) xs []"

text \<open>
  The loop of \<^verbatim>\<open>refreshLeaderboard\<close>: iteration \<open>i\<close> writes \<^verbatim>\<open>{ rank: i + 1 }\<close> to
  the row with the id of \<^verbatim>\<open>sortedEntries[i]\<close> and drops the answer. \<open>ws i\<close> is the
  outcome of the write of iteration \<open>i\<close>; the state is the backend with the requests
  sent so far.
\<close>

fun refresh_loop ::
  "(nat \<Rightarrow> outcome) \<Rightarrow> nat \<Rightarrow> LeaderboardEntry list \<Rightarrow> backend \<times> request list
     \<Rightarrow> backend \<times> request list" where
  "refresh_loop ws i [] s = s"
| "refresh_loop ws i (e # es) (b, log) =
     (let r = UpdateWorkshopLeaderboard \<lparr> set_rank = Some (int i + 1), set_total_score = None \<rparr>
                (e_id e)
      in refresh_loop ws (Suc i) es (perform (ws i) r b, log @ [r]))"

text \<open>The comparator of \<^verbatim>\<open>refreshLeaderboard\<close>,
  \<^verbatim>\<open>(a, b) => b.total_score - a.total_score\<close>.\<close>

definition by_score_desc :: "LeaderboardEntry \<Rightarrow> LeaderboardEntry \<Rightarrow> int" where
  "by_score_desc a b = total_score b - total_score a"

definition refreshLeaderboard ::
  "(nat \<Rightarrow> outcome) \<Rightarrow> LeaderboardEntry list \<Rightarrow> backend \<Rightarrow> run" where
  "refreshLeaderboard ws leaderboard b =
     (let sortedEntries = js_sort by_score_desc leaderboard;
          s = refresh_loop ws 0 sortedEntries (b, [])
      in \<lparr> db = fst s, sent = snd s, toasts = [LeaderboardRefreshed] \<rparr>)"

text \<open>The run of the loop in which every write succeeds.\<close>

definition all_ok :: "nat \<Rightarrow> outcome" where
  "all_ok i = Ok"

section \<open>Group codes (WorkshopGroupsTab, in unnamed/part_000)\<close>

text \<open>
  \<^verbatim>\<open>generateCode\<close> is \<^verbatim>\<open>Math.random().toString(36).substring(2, 8).toUpperCase()\<close>.

  \<^verbatim>\<open>Math.random()\<close> and the rendering of a Number belong to the JavaScript runtime.
  \<^verbatim>\<open>Math.random()\<close> answers a Number \<open>x\<close> with \<open>0 \<le> x < 1\<close>. ECMAScript
  (Number::toString, radix 36) renders zero as \<^verbatim>\<open>0\<close> and a positive \<open>x < 1\<close> as
  \<^verbatim>\<open>0.\<close>, then \<open>z\<close> zeros, then the \<open>k\<close> digits of an integer \<open>s\<close> with
  \<open>36 ^ (k - 1) \<le> s < 36 ^ k\<close>, where \<open>k\<close> is the least number of digits for which
  \<open>s / 36 ^ (z + k)\<close> rounds to \<open>x\<close>. The model takes the random value by these
  digits, most significant first: \<open>RDigits z ds\<close> is rendered with \<open>z\<close> zeros and
  the digits \<open>ds\<close>, each below 36, the first and the last not zero. \<open>RDigits 0 [18]\<close>
  is one half (\<open>18 / 36\<close>), rendered \<^verbatim>\<open>0.i\<close>.
\<close>

datatype random_value = RZero | RDigits nat "nat list"

fun well_formed :: "random_value \<Rightarrow> bool" where
  "well_formed RZero = True"
| "well_formed (RDigits z ds) =
     (ds \<noteq> [] \<and> list_all (\<lambda>d. d < 36) ds \<and> hd ds \<noteq> 0 \<and> last ds \<noteq> 0)"

definition digit_char :: "nat \<Rightarrow> char" where
  "digit_char d = ''0123456789abcdefghijklmnopqrstuvwxyz'' ! d"

fun toString36 :: "random_value \<Rightarrow> string" where
  "toString36 RZero = ''0''"
| "toString36 (RDigits z ds) = ''0.'' @ replicate z CHR ''0'' @ map digit_char ds"

text \<open>\<^verbatim>\<open>String.prototype.substring(start, end)\<close> for natural arguments: both are clamped
  to the length and swapped when out of order.\<close>

definition substring :: "nat \<Rightarrow> nat \<Rightarrow> string \<Rightarrow> string" where
  "substring start end s = take (max start end - min start end) (drop (min start end) s)"

text \<open>\<^verbatim>\<open>toUpperCase\<close> on the characters a rendering contains: the letters
  \<^verbatim>\<open>a\<close> to \<^verbatim>\<open>z\<close> move to \<^verbatim>\<open>A\<close> to \<^verbatim>\<open>Z\<close>, digits and the point stay.\<close>

definition upper_char :: "char \<Rightarrow> char" where
  "upper_char c = (if 97 \<le> (of_char c :: nat) \<and> (of_char c :: nat) \<le> 122
                   then char_of (of_char c - 32 :: nat) else c)"

definition toUpperCase :: "string \<Rightarrow> string" where
  "toUpperCase s = map upper_char s"

definition generateCode :: "random_value \<Rightarrow> string" where
  "generateCode r = toUpperCase (substring 2 8 (toString36 r))"

text \<open>The alphabet \<^verbatim>\<open>[A-Z0-9]\<close>.\<close>

definition code_char :: "char \<Rightarrow> bool" where
  "code_char c = (c \<in> set ''0123456789ABCDEFGHIJKLMNOPQRSTUVWXYZ'')"

section \<open>A workshop to run the handlers on\<close>

text \<open>
  Workshop \<^verbatim>\<open>w1\<close> is live and has three tasks, in orders 1, 2 and 3, the first one
  active; a task of another workshop shares the table. The leaderboard holds the
  entries A, B, C and D with the scores 30, 50, 50 and 10.
\<close>

definition demo_task :: "string \<Rightarrow> int \<Rightarrow> bool \<Rightarrow> Task" where
  "demo_task i n a =
     \<lparr> t_id = i, title = i, description = None, points = 10, timer_minutes = Some 30,
       is_active = a, is_ended = False, task_order = n, start_time = None,
       workshop_id = ''w1'' \<rparr>"

definition demo_tasks :: "Task list" where
  "demo_tasks = [demo_task ''t1'' 1 True, demo_task ''t2'' 2 False, demo_task ''t3'' 3 False]"

definition other_task :: Task where
  "other_task = (demo_task ''u1'' 2 True)\<lparr> workshop_id := ''w2'' \<rparr>"

definition demo_workshop :: Workshop where
  "demo_workshop = \<lparr> w_id = ''w1'', w_title = ''Demo'', status = Some ''live'', updated_at = None \<rparr>"

definition demo_entry :: "string \<Rightarrow> int \<Rightarrow> LeaderboardEntry" where
  "demo_entry i n =
     \<lparr> e_id = i, group_id = i, total_score = n, tasks_completed = 0, rank = None \<rparr>"

definition demo_leaderboard :: "LeaderboardEntry list" where
  "demo_leaderboard =
     [demo_entry ''A'' 30, demo_entry ''B'' 50, demo_entry ''C'' 50, demo_entry ''D'' 10]"

definition demo_backend :: backend where
  "demo_backend =
     \<lparr> workshops = [demo_workshop],
       workshop_tasks = demo_tasks @ [other_task],
       workshop_leaderboard = demo_leaderboard \<rparr>"

text \<open>The same workshop with its three tasks all active, and two instants.\<close>

definition busy_backend :: backend where
  "busy_backend =
     demo_backend\<lparr> workshop_tasks :=
       [demo_task ''t1'' 1 True, demo_task ''t2'' 2 True, demo_task ''t3'' 3 True, other_task] \<rparr>"

definition noon :: string where
  "noon = ''2025-11-07T12:00:00.000Z''"

definition later :: string where
  "later = ''2025-11-07T12:05:00.000Z''"

text \<open>What the examples read off a backend: per task its id, \<^verbatim>\<open>is_active\<close>,
  \<^verbatim>\<open>is_ended\<close> and \<^verbatim>\<open>start_time\<close>; per workshop its id and status; per leaderboard
  row its id, score and rank.\<close>

definition task_states :: "backend \<Rightarrow> (string \<times> bool \<times> bool \<times> string option) list" where
  "task_states b = map (\<lambda>t. (t_id t, is_active t, is_ended t, start_time t)) (workshop_tasks b)"

definition workshop_states :: "backend \<Rightarrow> (string \<times> string option) list" where
  "workshop_states b = map (\<lambda>w. (w_id w, status w)) (workshops b)"

definition leaderboard_states :: "backend \<Rightarrow> (string \<times> int \<times> int option) list" where
  "leaderboard_states b = map (\<lambda>e. (e_id e, total_score e, rank e)) (workshop_leaderboard b)"

section \<open>Facts about the handlers\<close>

subsection \<open>Sums of numbers\<close>

lemma spacing_stop: "m div u < 9007199254740992 \<Longrightarrow> spacing u m = u"
  by (subst spacing.simps) simp

lemma spacing_step:
  "u \<noteq> 0 \<Longrightarrow> \<not> m div u < 9007199254740992 \<Longrightarrow> spacing u m = spacing (2 * u) m"
  by (subst spacing.simps) simp

lemma to_double_small:
  assumes "\<bar>n\<bar> < 9007199254740992"
  shows "to_double n = n"
proof -
  from assms have "nat \<bar>n\<bar> div 1 < 9007199254740992" by simp
  then have "spacing 1 (nat \<bar>n\<bar>) = 1" by (rule spacing_stop)
  then have "to_double n = sgn n * int (nat \<bar>n\<bar>)"
    unfolding to_double_def Let_def by simp
  also have "\<dots> = sgn n * \<bar>n\<bar>" by simp
  also have "\<dots> = n" by (rule mult_sgn_abs)
  finally show ?thesis .
qed

lemma spacing_53: "spacing 1 9007199254740992 = 2"
  by (simp add: spacing_stop spacing_step)

lemma to_double_53:
  "to_double 9007199254740992 = 9007199254740992"
  "to_double (- 9007199254740992) = - 9007199254740992"
  unfolding to_double_def Let_def by (simp_all add: spacing_53)

text \<open>Up to \<open>2 ^ 53\<close> in magnitude nothing is rounded.\<close>

lemma to_double_exact:
  assumes "\<bar>n\<bar> \<le> 9007199254740992"
  shows "to_double n = n"
proof (cases "\<bar>n\<bar> < 9007199254740992")
  case True
  then show ?thesis by (rule to_double_small)
next
  case False
  with assms have "n = 9007199254740992 \<or> n = - 9007199254740992" by arith
  then show ?thesis using to_double_53 by auto
qed

lemma js_add_exact: "\<bar>x + y\<bar> \<le> 9007199254740992 \<Longrightarrow> js_add x y = x + y"
  by (simp add: js_add_def to_double_exact)

lemma js_add_one: "safe_integer x \<Longrightarrow> js_add x 1 = x + 1"
  by (rule js_add_exact) (simp add: safe_integer_def)

lemma js_add_safe: "safe_integer (x + y) \<Longrightarrow> js_add x y = x + y"
  by (rule js_add_exact) (simp add: safe_integer_def)

text \<open>Beyond, sums are rounded: \<open>2 ^ 53 + 1\<close> is \<open>2 ^ 53\<close>, and \<open>31 + 2 ^ 53\<close>, a tie
  between two doubles, goes to the even one.\<close>

lemma js_add_rounds:
  "js_add 9007199254740992 1 = 9007199254740992"
  "js_add 31 9007199254740992 = 9007199254741024"
  unfolding js_add_def to_double_def Let_def by (simp_all add: spacing_stop spacing_step)

subsection \<open>Ending a task\<close>

lemma next_id_differs:
  assumes "distinct (map t_id tasks)" "task \<in> set tasks" "n \<in> set tasks"
    "task_order n = task_order task + 1"
  shows "t_id n \<noteq> t_id task"
proof
  assume "t_id n = t_id task"
  with assms(1-3) have "n = task" by (meson distinct_map inj_onD)
  with assms(4) show False by simp
qed

lemma find_next_id_differs:
  assumes "distinct (map t_id tasks)" "task \<in> set tasks"
    "find (\<lambda>t. task_order t = task_order task + 1 \<and> \<not> is_ended t) tasks = Some n"
  shows "t_id n \<noteq> t_id task"
proof -
  from assms(3) have "n \<in> set tasks" "task_order n = task_order task + 1"
    by (auto simp: find_Some_iff)
  with assms(1,2) show ?thesis by (rule next_id_differs)
qed

lemma demo_orders_safe:
  "safe_integer (task_order (demo_task i 1 a))"
  "safe_integer (task_order (demo_task i 3 a))"
  by (simp_all add: safe_integer_def demo_task_def)

lemma demo_tasks_distinct: "distinct (map t_id demo_tasks)"
  by (simp add: demo_tasks_def demo_task_def)

text \<open>
  C1. Let \<open>task\<close> be one of the tasks of the in-memory list, whose ids are distinct, let
  its \<open>task_order\<close> be a safe integer, so that adding one to it is exact, and let the
  user confirm and both writes succeed. If position \<open>i\<close> of the list holds the
  first task with \<open>task_order = task_order task + 1\<close> that is not ended, the run sends
  two requests, in this order: end the rows with the task's id, activate the rows with
  the id of \<open>tasks ! i\<close>. Afterwards the rows of the ended task have
  \<open>is_active = False\<close> and \<open>is_ended = True\<close>, the rows of \<open>tasks ! i\<close> have
  \<open>is_active = True\<close> and \<open>start_time = Some now\<close>, and every other row and table
  is as before. If the list holds no such task, the only request is the one that ends
  the task, and nothing is activated.
\<close>

theorem handleEndTask_advances:
  assumes "distinct (map t_id tasks)" and "task \<in> set tasks"
    and "safe_integer (task_order task)"
  shows "(\<forall>i<length tasks.
            task_order (tasks ! i) = task_order task + 1 \<and> \<not> is_ended (tasks ! i)
            \<and> (\<forall>j<i. \<not> (task_order (tasks ! j) = task_order task + 1
                        \<and> \<not> is_ended (tasks ! j)))
          \<longrightarrow> db (handleEndTask True Ok Ok now tasks task b) =
                b\<lparr> workshop_tasks :=
                     map (\<lambda>t. if t_id t = t_id (tasks ! i)
                               then t\<lparr> is_active := True, start_time := Some now \<rparr>
                               else if t_id t = t_id task
                               then t\<lparr> is_active := False, is_ended := True \<rparr>
                               else t)
                         (workshop_tasks b) \<rparr>
              \<and> sent (handleEndTask True Ok Ok now tasks task b) =
                  [UpdateWorkshopTasks
                     \<lparr> set_is_active = Some False, set_is_ended = Some True,
                       set_start_time = None \<rparr>
                     (TaskIdEq (t_id task)),
                   UpdateWorkshopTasks
                     \<lparr> set_is_active = Some True, set_is_ended = None,
                       set_start_time = Some (Some now) \<rparr>
                     (TaskIdEq (t_id (tasks ! i)))])
       \<and> ((\<forall>t\<in>set tasks. \<not> (task_order t = task_order task + 1 \<and> \<not> is_ended t))
          \<longrightarrow> db (handleEndTask True Ok Ok now tasks task b) =
                b\<lparr> workshop_tasks :=
                     map (\<lambda>t. if t_id t = t_id task
                               then t\<lparr> is_active := False, is_ended := True \<rparr>
                               else t)
                         (workshop_tasks b) \<rparr>
              \<and> sent (handleEndTask True Ok Ok now tasks task b) =
                  [UpdateWorkshopTasks
                     \<lparr> set_is_active = Some False, set_is_ended = Some True,
                       set_start_time = None \<rparr>
                     (TaskIdEq (t_id task))])"
proof (intro conjI allI impI)
  have plus: "js_add (task_order task) 1 = task_order task + 1"
    using assms(3) by (rule js_add_one)
  fix i
  assume i: "i < length tasks"
  assume first: "task_order (tasks ! i) = task_order task + 1 \<and> \<not> is_ended (tasks ! i)
            \<and> (\<forall>j<i. \<not> (task_order (tasks ! j) = task_order task + 1
                        \<and> \<not> is_ended (tasks ! j)))"
  let ?P = "\<lambda>t. task_order t = task_order task + 1 \<and> \<not> is_ended t"
  from i first have f: "find ?P tasks = Some (tasks ! i)"
    unfolding find_Some_iff by blast
  from i have "tasks ! i \<in> set tasks" by simp
  with assms(1,2) first have ne: "t_id (tasks ! i) \<noteq> t_id task"
    using next_id_differs by blast
  show "db (handleEndTask True Ok Ok now tasks task b) =
                b\<lparr> workshop_tasks :=
                     map (\<lambda>t. if t_id t = t_id (tasks ! i)
                               then t\<lparr> is_active := True, start_time := Some now \<rparr>
                               else if t_id t = t_id task
                               then t\<lparr> is_active := False, is_ended := True \<rparr>
                               else t)
                         (workshop_tasks b) \<rparr>"
    using f ne by (simp add: handleEndTask_def plus apply_task_patch_def)
  show "sent (handleEndTask True Ok Ok now tasks task b) =
                  [UpdateWorkshopTasks
                     \<lparr> set_is_active = Some False, set_is_ended = Some True,
                       set_start_time = None \<rparr>
                     (TaskIdEq (t_id task)),
                   UpdateWorkshopTasks
                     \<lparr> set_is_active = Some True, set_is_ended = None,
                       set_start_time = Some (Some now) \<rparr>
                     (TaskIdEq (t_id (tasks ! i)))]"
    using f by (simp add: handleEndTask_def plus)
next
  have plus: "js_add (task_order task) 1 = task_order task + 1"
    using assms(3) by (rule js_add_one)
  assume none: "\<forall>t\<in>set tasks. \<not> (task_order t = task_order task + 1 \<and> \<not> is_ended t)"
  then have f: "find (\<lambda>t. task_order t = task_order task + 1 \<and> \<not> is_ended t) tasks = None"
    unfolding find_None_iff by blast
  show "db (handleEndTask True Ok Ok now tasks task b) =
                b\<lparr> workshop_tasks :=
                     map (\<lambda>t. if t_id t = t_id task
                               then t\<lparr> is_active := False, is_ended := True \<rparr>
                               else t)
                         (workshop_tasks b) \<rparr>"
    using f by (simp add: handleEndTask_def plus apply_task_patch_def)
  show "sent (handleEndTask True Ok Ok now tasks task b) =
                  [UpdateWorkshopTasks
                     \<lparr> set_is_active = Some False, set_is_ended = Some True,
                       set_start_time = None \<rparr>
                     (TaskIdEq (t_id task))]"
    using f by (simp add: handleEndTask_def plus)
qed

text \<open>
  On the tasks of orders 1, 2 and 3: ending the first activates the second and stamps
  it; ending the third activates nothing.
\<close>

theorem handleEndTask_advances_witness:
  "task_states (db (handleEndTask True Ok Ok noon demo_tasks (demo_task ''t1'' 1 True)
                      demo_backend))
     = [(''t1'', False, True, None), (''t2'', True, False, Some noon),
        (''t3'', False, False, None), (''u1'', True, False, None)]
   \<and> task_states (db (handleEndTask True Ok Ok noon demo_tasks (demo_task ''t3'' 3 False)
                      demo_backend))
     = [(''t1'', True, False, None), (''t2'', False, False, None),
        (''t3'', False, True, None), (''u1'', True, False, None)]"
proof -
  have m1: "demo_task ''t1'' 1 True \<in> set demo_tasks"
    and m3: "demo_task ''t3'' 3 False \<in> set demo_tasks"
    by (simp_all add: demo_tasks_def)
  have one: "(1::nat) < length demo_tasks" by (simp add: demo_tasks_def)
  have first: "task_order (demo_tasks ! 1) = task_order (demo_task ''t1'' 1 True) + 1
        \<and> \<not> is_ended (demo_tasks ! 1)
        \<and> (\<forall>j<1. \<not> (task_order (demo_tasks ! j) = task_order (demo_task ''t1'' 1 True) + 1
                     \<and> \<not> is_ended (demo_tasks ! j)))"
    by (simp add: demo_tasks_def demo_task_def)
  have none: "\<forall>t\<in>set demo_tasks.
        \<not> (task_order t = task_order (demo_task ''t3'' 3 False) + 1 \<and> \<not> is_ended t)"
    by (simp add: demo_tasks_def demo_task_def)
  from handleEndTask_advances [OF demo_tasks_distinct m1 demo_orders_safe(1), of noon demo_backend]
    one first
  have "db (handleEndTask True Ok Ok noon demo_tasks (demo_task ''t1'' 1 True) demo_backend) =
          demo_backend\<lparr> workshop_tasks :=
             map (\<lambda>t. if t_id t = t_id (demo_tasks ! 1)
                       then t\<lparr> is_active := True, start_time := Some noon \<rparr>
                       else if t_id t = t_id (demo_task ''t1'' 1 True)
                       then t\<lparr> is_active := False, is_ended := True \<rparr>
                       else t)
                 (workshop_tasks demo_backend) \<rparr>"
    by blast
  moreover
  from handleEndTask_advances [OF demo_tasks_distinct m3 demo_orders_safe(2), of noon demo_backend]
    none
  have "db (handleEndTask True Ok Ok noon demo_tasks (demo_task ''t3'' 3 False) demo_backend) =
          demo_backend\<lparr> workshop_tasks :=
             map (\<lambda>t. if t_id t = t_id (demo_task ''t3'' 3 False)
                       then t\<lparr> is_active := False, is_ended := True \<rparr>
                       else t)
                 (workshop_tasks demo_backend) \<rparr>"
    by blast
  ultimately show ?thesis
    by (simp add: task_states_def demo_backend_def demo_tasks_def demo_task_def other_task_def)
qed

text \<open>
  C4, as amended. With the same in-memory list (distinct ids, the task among them, its
  \<open>task_order\<close> a safe integer), the user confirming and every write succeeding, ending a task twice leaves every row with
  the task's id at \<open>is_active = False\<close> and \<open>is_ended = True\<close> after the first call and
  after the second, and the second call raises no destructive notice. The second call
  is a no-op on the backend only when the list holds no next task; when it holds one,
  the second call writes to the rows with that task's id again, and all it changes is
  their \<open>start_time\<close>, which becomes the time of the second call.
\<close>

theorem handleEndTask_twice:
  assumes "distinct (map t_id tasks)" and "task \<in> set tasks"
    and "safe_integer (task_order task)"
  shows "(\<forall>t\<in>set (workshop_tasks (db (handleEndTask True Ok Ok now1 tasks task b))).
            t_id t = t_id task \<longrightarrow> \<not> is_active t \<and> is_ended t)
       \<and> (\<forall>t\<in>set (workshop_tasks
                     (db (handleEndTask True Ok Ok now2 tasks task
                            (db (handleEndTask True Ok Ok now1 tasks task b))))).
            t_id t = t_id task \<longrightarrow> \<not> is_active t \<and> is_ended t)
       \<and> (\<forall>x\<in>set (toasts (handleEndTask True Ok Ok now2 tasks task
                              (db (handleEndTask True Ok Ok now1 tasks task b)))).
            \<not> destructive x)
       \<and> db (handleEndTask True Ok Ok now2 tasks task
               (db (handleEndTask True Ok Ok now1 tasks task b)))
         = (case find (\<lambda>t. task_order t = task_order task + 1 \<and> \<not> is_ended t) tasks of
              None \<Rightarrow> db (handleEndTask True Ok Ok now1 tasks task b)
            | Some n \<Rightarrow>
                (db (handleEndTask True Ok Ok now1 tasks task b))
                  \<lparr> workshop_tasks :=
                      map (\<lambda>t. if t_id t = t_id n then t\<lparr> start_time := Some now2 \<rparr> else t)
                          (workshop_tasks (db (handleEndTask True Ok Ok now1 tasks task b))) \<rparr>)"
proof (cases "find (\<lambda>t. task_order t = task_order task + 1 \<and> \<not> is_ended t) tasks")
  have plus: "js_add (task_order task) 1 = task_order task + 1"
    using assms(3) by (rule js_add_one)
  case None
  then show ?thesis
    by (auto simp: handleEndTask_def plus apply_task_patch_def)
next
  have plus: "js_add (task_order task) 1 = task_order task + 1"
    using assms(3) by (rule js_add_one)
  case (Some n)
  with assms(1,2) have ne: "t_id n \<noteq> t_id task" by (rule find_next_id_differs)
  with Some show ?thesis
    by (auto simp: handleEndTask_def plus apply_task_patch_def)
qed

text \<open>Ending the first of the three tasks at noon and again five minutes later: the
  first task stays ended, and the second task, active since noon, is stamped anew.\<close>

theorem handleEndTask_twice_witness:
  "task_states (db (handleEndTask True Ok Ok later demo_tasks (demo_task ''t1'' 1 True)
                      (db (handleEndTask True Ok Ok noon demo_tasks (demo_task ''t1'' 1 True)
                             demo_backend))))
     = [(''t1'', False, True, None), (''t2'', True, False, Some later),
        (''t3'', False, False, None), (''u1'', True, False, None)]"
proof -
  have m1: "demo_task ''t1'' 1 True \<in> set demo_tasks"
    by (simp add: demo_tasks_def)
  have f: "find (\<lambda>t. task_order t = task_order (demo_task ''t1'' 1 True) + 1 \<and> \<not> is_ended t)
             demo_tasks = Some (demo_task ''t2'' 2 False)"
    by (simp add: demo_tasks_def demo_task_def)
  have first: "task_states (db (handleEndTask True Ok Ok noon demo_tasks
                                  (demo_task ''t1'' 1 True) demo_backend))
     = [(''t1'', False, True, None), (''t2'', True, False, Some noon),
        (''t3'', False, False, None), (''u1'', True, False, None)]"
    unfolding handleEndTask_def js_add_one [OF demo_orders_safe(1)] f
    by (simp add: task_states_def demo_backend_def demo_tasks_def demo_task_def other_task_def
          apply_task_patch_def)
  from handleEndTask_twice [OF demo_tasks_distinct m1 demo_orders_safe(1), of noon demo_backend later]
  have "db (handleEndTask True Ok Ok later demo_tasks (demo_task ''t1'' 1 True)
              (db (handleEndTask True Ok Ok noon demo_tasks (demo_task ''t1'' 1 True)
                     demo_backend)))
        = (db (handleEndTask True Ok Ok noon demo_tasks (demo_task ''t1'' 1 True) demo_backend))
            \<lparr> workshop_tasks :=
                map (\<lambda>t. if t_id t = t_id (demo_task ''t2'' 2 False)
                          then t\<lparr> start_time := Some later \<rparr> else t)
                    (workshop_tasks (db (handleEndTask True Ok Ok noon demo_tasks
                                           (demo_task ''t1'' 1 True) demo_backend))) \<rparr>"
    unfolding f by simp
  then have "task_states (db (handleEndTask True Ok Ok later demo_tasks (demo_task ''t1'' 1 True)
              (db (handleEndTask True Ok Ok noon demo_tasks (demo_task ''t1'' 1 True)
                     demo_backend))))
        = map (\<lambda>s. if fst s = ''t2'' then (fst s, fst (snd s), fst (snd (snd s)), Some later)
                    else s)
            (task_states (db (handleEndTask True Ok Ok noon demo_tasks
                                (demo_task ''t1'' 1 True) demo_backend)))"
    by (simp add: task_states_def demo_task_def o_def if_distrib cong: if_cong)
  then show ?thesis unfolding first by simp
qed

text \<open>
  The claim as stated fails: after ending the first task at noon, ending it again five
  minutes later moves the \<open>start_time\<close> of the second task, so the backend after the
  second call is not the backend after the first.
\<close>

theorem handleEndTask_twice_counterexample:
  "db (handleEndTask True Ok Ok later demo_tasks (demo_task ''t1'' 1 True)
         (db (handleEndTask True Ok Ok noon demo_tasks (demo_task ''t1'' 1 True) demo_backend)))
   \<noteq> db (handleEndTask True Ok Ok noon demo_tasks (demo_task ''t1'' 1 True) demo_backend)"
proof
  assume "db (handleEndTask True Ok Ok later demo_tasks (demo_task ''t1'' 1 True)
         (db (handleEndTask True Ok Ok noon demo_tasks (demo_task ''t1'' 1 True) demo_backend)))
   = db (handleEndTask True Ok Ok noon demo_tasks (demo_task ''t1'' 1 True) demo_backend)"
  then have "task_states (db (handleEndTask True Ok Ok later demo_tasks (demo_task ''t1'' 1 True)
         (db (handleEndTask True Ok Ok noon demo_tasks (demo_task ''t1'' 1 True) demo_backend))))
   = task_states (db (handleEndTask True Ok Ok noon demo_tasks (demo_task ''t1'' 1 True)
                        demo_backend))"
    by simp
  then show False
    by (simp add: handleEndTask_def js_add_exact task_states_def demo_backend_def
          demo_tasks_def demo_task_def other_task_def apply_task_patch_def noon_def later_def)
qed

subsection \<open>Activating an ended task\<close>

text \<open>
  C3. Activating an ended task fails before anything is written: for every task with
  \<open>is_ended\<close> set, \<open>toggleTaskActive\<close> returns normally, sends no request, leaves
  the whole backend (so every field of every row, the task's own included) as it was,
  and raises exactly one notice, a destructive one.
\<close>

theorem toggleTaskActive_ended_rejected:
  assumes "is_ended task"
  shows "db (toggleTaskActive w now task b) = b
       \<and> sent (toggleTaskActive w now task b) = []
       \<and> toasts (toggleTaskActive w now task b) = [CannotActivateEndedTask]
       \<and> destructive CannotActivateEndedTask"
  using assms by (simp add: toggleTaskActive_def)

text \<open>The first task, once ended: toggling it leaves the backend as it is.\<close>

theorem toggleTaskActive_ended_rejected_witness:
  "is_ended ((demo_task ''t1'' 1 False)\<lparr> is_ended := True \<rparr>)
   \<and> db (toggleTaskActive Ok noon ((demo_task ''t1'' 1 False)\<lparr> is_ended := True \<rparr>)
            demo_backend) = demo_backend
   \<and> sent (toggleTaskActive Ok noon ((demo_task ''t1'' 1 False)\<lparr> is_ended := True \<rparr>)
              demo_backend) = []"
  using toggleTaskActive_ended_rejected
          [of "(demo_task ''t1'' 1 False)\<lparr> is_ended := True \<rparr>" Ok noon demo_backend]
  by (simp add: demo_task_def)

subsection \<open>Starting and ending a workshop\<close>

lemma all_of_map:
  assumes "\<And>x. x \<in> set xs \<Longrightarrow> Q (f x)"
  shows "\<forall>y\<in>set (map f xs). Q y"
  using assms by simp

text \<open>
  C2. The code at a completed workshop. Ending the live workshop \<^verbatim>\<open>w1\<close> leaves the
  status \<^verbatim>\<open>completed\<close>, in the backend and on the tab. The tab then renders the
  Start Workshop button, and \<open>handleStartWorkshop\<close> with a successful write puts the
  status back to \<^verbatim>\<open>live\<close> and announces that the workshop has started: nothing
  rejects the call.
\<close>

theorem handleStartWorkshop_after_end:
  "workshopStatus (handleEndWorkshop Ok Ok ''w1'' ''live'' demo_backend) = ''completed''
   \<and> workshop_states (db (handleEndWorkshop Ok Ok ''w1'' ''live'' demo_backend))
       = [(''w1'', Some ''completed'')]
   \<and> start_button_shown ''completed''
   \<and> workshop_states (db (handleStartWorkshop Ok noon ''w1'' ''completed''
                             (db (handleEndWorkshop Ok Ok ''w1'' ''live'' demo_backend))))
       = [(''w1'', Some ''live'')]
   \<and> workshopStatus (handleStartWorkshop Ok noon ''w1'' ''completed''
                        (db (handleEndWorkshop Ok Ok ''w1'' ''live'' demo_backend))) = ''live''
   \<and> toasts (handleStartWorkshop Ok noon ''w1'' ''completed''
                (db (handleEndWorkshop Ok Ok ''w1'' ''live'' demo_backend))) = [WorkshopStarted]"
  by (simp add: handleEndWorkshop_def handleStartWorkshop_def start_button_shown_def
        workshop_states_def demo_backend_def demo_workshop_def apply_workshop_patch_def)

text \<open>
  C5. Ending a live workshop with both writes succeeding sends two requests, the bulk
  write on the tasks of the workshop first and the status write second. Afterwards
  every task of the workshop has \<open>is_active = False\<close> and \<open>is_ended = True\<close>, the
  tasks of other workshops are as before, the workshop's status is \<^verbatim>\<open>completed\<close> in
  the backend and on the tab, and the notice is the one of success.
\<close>

theorem handleEndWorkshop_cascade:
  assumes "w \<in> set (workshops b)" and "w_id w = workshopId" and "status w = Some ''live''"
  shows "sent (handleEndWorkshop Ok Ok workshopId ws b) =
           [UpdateWorkshopTasks
              \<lparr> set_is_active = Some False, set_is_ended = Some True, set_start_time = None \<rparr>
              (TaskWorkshopIdEq workshopId),
            UpdateWorkshops \<lparr> set_status = Some ''completed'', set_updated_at = None \<rparr>
              workshopId]
       \<and> workshop_tasks (db (handleEndWorkshop Ok Ok workshopId ws b)) =
           map (\<lambda>t. if workshop_id t = workshopId
                     then t\<lparr> is_active := False, is_ended := True \<rparr> else t)
               (workshop_tasks b)
       \<and> (\<forall>t\<in>set (workshop_tasks (db (handleEndWorkshop Ok Ok workshopId ws b))).
             workshop_id t = workshopId \<longrightarrow> \<not> is_active t \<and> is_ended t)
       \<and> w\<lparr> status := Some ''completed'' \<rparr>
             \<in> set (workshops (db (handleEndWorkshop Ok Ok workshopId ws b)))
       \<and> (\<forall>v\<in>set (workshops (db (handleEndWorkshop Ok Ok workshopId ws b))).
             w_id v = workshopId \<longrightarrow> status v = Some ''completed'')
       \<and> workshopStatus (handleEndWorkshop Ok Ok workshopId ws b) = ''completed''
       \<and> toasts (handleEndWorkshop Ok Ok workshopId ws b) = [WorkshopCompleted]"
proof -
  let ?R = "handleEndWorkshop Ok Ok workshopId ws b"
  let ?complete = "\<lambda>v. if w_id v = workshopId then v\<lparr> status := Some ''completed'' \<rparr> else v"
  have requests: "sent ?R =
           [UpdateWorkshopTasks
              \<lparr> set_is_active = Some False, set_is_ended = Some True, set_start_time = None \<rparr>
              (TaskWorkshopIdEq workshopId),
            UpdateWorkshops \<lparr> set_status = Some ''completed'', set_updated_at = None \<rparr>
              workshopId]"
    by (simp add: handleEndWorkshop_def)
  have tasks: "workshop_tasks (db ?R) =
           map (\<lambda>t. if workshop_id t = workshopId
                     then t\<lparr> is_active := False, is_ended := True \<rparr> else t)
               (workshop_tasks b)"
    by (simp add: handleEndWorkshop_def apply_task_patch_def)
  have rows: "workshops (db ?R) = map ?complete (workshops b)"
    by (simp add: handleEndWorkshop_def apply_workshop_patch_def)
  have ended: "\<forall>t\<in>set (workshop_tasks (db ?R)).
                 workshop_id t = workshopId \<longrightarrow> \<not> is_active t \<and> is_ended t"
    unfolding tasks by (rule all_of_map) simp
  from assms(2) have "?complete w = w\<lparr> status := Some ''completed'' \<rparr>" by simp
  with imageI [OF assms(1), of ?complete]
  have mine: "w\<lparr> status := Some ''completed'' \<rparr> \<in> set (workshops (db ?R))"
    unfolding rows set_map by (simp only:)
  have completed: "\<forall>v\<in>set (workshops (db ?R)). w_id v = workshopId \<longrightarrow> status v = Some ''completed''"
    unfolding rows by (rule all_of_map) simp
  have tab: "workshopStatus ?R = ''completed''" and notice: "toasts ?R = [WorkshopCompleted]"
    by (simp_all add: handleEndWorkshop_def)
  from requests tasks ended mine completed tab notice show ?thesis by (intro conjI)
qed

text \<open>The live workshop with its three tasks active: all three end, the task of the
  other workshop stays active, the status is \<^verbatim>\<open>completed\<close>.\<close>

theorem handleEndWorkshop_cascade_witness:
  "demo_workshop \<in> set (workshops busy_backend) \<and> w_id demo_workshop = ''w1''
   \<and> status demo_workshop = Some ''live''
   \<and> task_states busy_backend
       = [(''t1'', True, False, None), (''t2'', True, False, None),
          (''t3'', True, False, None), (''u1'', True, False, None)]
   \<and> task_states (db (handleEndWorkshop Ok Ok ''w1'' ''live'' busy_backend))
       = [(''t1'', False, True, None), (''t2'', False, True, None),
          (''t3'', False, True, None), (''u1'', True, False, None)]
   \<and> workshop_states (db (handleEndWorkshop Ok Ok ''w1'' ''live'' busy_backend))
       = [(''w1'', Some ''completed'')]"
  using handleEndWorkshop_cascade [of demo_workshop busy_backend "''w1''" "''live''"]
  by (simp add: busy_backend_def demo_backend_def demo_workshop_def demo_task_def
        other_task_def task_states_def workshop_states_def handleEndWorkshop_def
        apply_workshop_patch_def)

text \<open>
  C6. The two writes of \<open>handleEndWorkshop\<close> are separate requests and nothing is sent
  after them. When the bulk write succeeds and the status write fails, every task of
  the workshop is ended and inactive while the table of workshops is untouched: a
  workshop that was live is still live, on the tab as well, and the only sign of the
  failure is the destructive notice.
\<close>

theorem handleEndWorkshop_status_write_fails:
  assumes "w \<in> set (workshops b)" and "w_id w = workshopId" and "status w = Some ''live''"
  shows "sent (handleEndWorkshop Ok Failed workshopId ws b) =
           [UpdateWorkshopTasks
              \<lparr> set_is_active = Some False, set_is_ended = Some True, set_start_time = None \<rparr>
              (TaskWorkshopIdEq workshopId),
            UpdateWorkshops \<lparr> set_status = Some ''completed'', set_updated_at = None \<rparr>
              workshopId]
       \<and> workshop_tasks (db (handleEndWorkshop Ok Failed workshopId ws b)) =
           map (\<lambda>t. if workshop_id t = workshopId
                     then t\<lparr> is_active := False, is_ended := True \<rparr> else t)
               (workshop_tasks b)
       \<and> (\<forall>t\<in>set (workshop_tasks (db (handleEndWorkshop Ok Failed workshopId ws b))).
             workshop_id t = workshopId \<longrightarrow> \<not> is_active t \<and> is_ended t)
       \<and> workshops (db (handleEndWorkshop Ok Failed workshopId ws b)) = workshops b
       \<and> w \<in> set (workshops (db (handleEndWorkshop Ok Failed workshopId ws b)))
       \<and> status w = Some ''live''
       \<and> workshopStatus (handleEndWorkshop Ok Failed workshopId ws b) = ws
       \<and> toasts (handleEndWorkshop Ok Failed workshopId ws b) = [ErrorEndingWorkshop]"
  using assms by (auto simp: handleEndWorkshop_def apply_task_patch_def)

text \<open>The live workshop with its three tasks active, the status write failing: the
  three tasks are ended and the workshop is still live.\<close>

theorem handleEndWorkshop_status_write_fails_witness:
  "demo_workshop \<in> set (workshops busy_backend) \<and> w_id demo_workshop = ''w1''
   \<and> status demo_workshop = Some ''live''
   \<and> task_states (db (handleEndWorkshop Ok Failed ''w1'' ''live'' busy_backend))
       = [(''t1'', False, True, None), (''t2'', False, True, None),
          (''t3'', False, True, None), (''u1'', True, False, None)]
   \<and> workshop_states (db (handleEndWorkshop Ok Failed ''w1'' ''live'' busy_backend))
       = [(''w1'', Some ''live'')]"
  using handleEndWorkshop_status_write_fails [of demo_workshop busy_backend "''w1''" "''live''"]
  by (simp add: busy_backend_def demo_backend_def demo_workshop_def demo_task_def
        other_task_def task_states_def workshop_states_def)

text \<open>
  C10. Whatever the outcomes of the two writes, \<open>handleEndWorkshop\<close> sends both
  requests: the answer to the bulk write on the tasks decides nothing. When that write
  fails and the status write succeeds, the tasks are exactly as before, so a task of
  the workshop that was not ended is still not ended, while the workshop's status is
  \<^verbatim>\<open>completed\<close> in the backend and on the tab, under the notice of success.
\<close>

theorem handleEndWorkshop_task_write_unchecked:
  assumes "t \<in> set (workshop_tasks b)" and "workshop_id t = workshopId" and "\<not> is_ended t"
    and "w \<in> set (workshops b)" and "w_id w = workshopId"
  shows "sent (handleEndWorkshop w1 w2 workshopId ws b) =
           [UpdateWorkshopTasks
              \<lparr> set_is_active = Some False, set_is_ended = Some True, set_start_time = None \<rparr>
              (TaskWorkshopIdEq workshopId),
            UpdateWorkshops \<lparr> set_status = Some ''completed'', set_updated_at = None \<rparr>
              workshopId]
       \<and> workshop_tasks (db (handleEndWorkshop Failed Ok workshopId ws b)) = workshop_tasks b
       \<and> t \<in> set (workshop_tasks (db (handleEndWorkshop Failed Ok workshopId ws b)))
       \<and> \<not> is_ended t
       \<and> w\<lparr> status := Some ''completed'' \<rparr>
             \<in> set (workshops (db (handleEndWorkshop Failed Ok workshopId ws b)))
       \<and> (\<forall>v\<in>set (workshops (db (handleEndWorkshop Failed Ok workshopId ws b))).
             w_id v = workshopId \<longrightarrow> status v = Some ''completed'')
       \<and> workshopStatus (handleEndWorkshop Failed Ok workshopId ws b) = ''completed''
       \<and> toasts (handleEndWorkshop Failed Ok workshopId ws b) = [WorkshopCompleted]"
proof -
  let ?R = "handleEndWorkshop Failed Ok workshopId ws b"
  let ?complete = "\<lambda>v. if w_id v = workshopId then v\<lparr> status := Some ''completed'' \<rparr> else v"
  have requests: "sent (handleEndWorkshop w1 w2 workshopId ws b) =
           [UpdateWorkshopTasks
              \<lparr> set_is_active = Some False, set_is_ended = Some True, set_start_time = None \<rparr>
              (TaskWorkshopIdEq workshopId),
            UpdateWorkshops \<lparr> set_status = Some ''completed'', set_updated_at = None \<rparr>
              workshopId]"
    by (cases w2) (simp_all add: handleEndWorkshop_def Let_def)
  have tasks: "workshop_tasks (db ?R) = workshop_tasks b"
    by (simp add: handleEndWorkshop_def)
  with assms(1) have mine: "t \<in> set (workshop_tasks (db ?R))" by simp
  have rows: "workshops (db ?R) = map ?complete (workshops b)"
    by (simp add: handleEndWorkshop_def apply_workshop_patch_def)
  from assms(5) have "?complete w = w\<lparr> status := Some ''completed'' \<rparr>" by simp
  with imageI [OF assms(4), of ?complete]
  have row: "w\<lparr> status := Some ''completed'' \<rparr> \<in> set (workshops (db ?R))"
    unfolding rows set_map by (simp only:)
  have completed: "\<forall>v\<in>set (workshops (db ?R)). w_id v = workshopId \<longrightarrow> status v = Some ''completed''"
    unfolding rows by (rule all_of_map) simp
  have tab: "workshopStatus ?R = ''completed''" and notice: "toasts ?R = [WorkshopCompleted]"
    by (simp_all add: handleEndWorkshop_def)
  from requests tasks mine assms(3) row completed tab notice show ?thesis by (intro conjI)
qed

text \<open>The same workshop, the bulk write failing and the status write succeeding: the
  workshop is completed and its three tasks are still active and not ended.\<close>

theorem handleEndWorkshop_task_write_unchecked_witness:
  "demo_task ''t2'' 2 True \<in> set (workshop_tasks busy_backend)
   \<and> \<not> is_ended (demo_task ''t2'' 2 True)
   \<and> task_states (db (handleEndWorkshop Failed Ok ''w1'' ''live'' busy_backend))
       = [(''t1'', True, False, None), (''t2'', True, False, None),
          (''t3'', True, False, None), (''u1'', True, False, None)]
   \<and> workshop_states (db (handleEndWorkshop Failed Ok ''w1'' ''live'' busy_backend))
       = [(''w1'', Some ''completed'')]"
  using handleEndWorkshop_task_write_unchecked
          [of "demo_task ''t2'' 2 True" busy_backend "''w1''" demo_workshop Failed Ok "''live''"]
  by (simp add: busy_backend_def demo_backend_def demo_workshop_def demo_task_def
        other_task_def task_states_def workshop_states_def handleEndWorkshop_def
        apply_workshop_patch_def)

subsection \<open>The leaderboard\<close>

lemma js_insert_insort:
  "js_insert by_score_desc x ys = insort_key (\<lambda>e. - total_score e) x ys"
  by (induction ys) (auto simp: by_score_desc_def)

lemma js_sort_sort_key:
  "js_sort by_score_desc xs = sort_key (\<lambda>e. - total_score e) xs"
  unfolding js_sort_def sort_key_def
  by (induction xs) (auto simp: js_insert_insort)

lemma js_sort_mset: "mset (js_sort by_score_desc xs) = mset xs"
  by (simp add: js_sort_sort_key)

lemma js_sort_descending:
  "sorted_wrt (\<lambda>a b. total_score b \<le> total_score a) (js_sort by_score_desc xs)"
proof -
  have "sorted (map (\<lambda>e. - total_score e) (sort_key (\<lambda>e. - total_score e) xs))"
    by (rule sorted_sort_key)
  then show ?thesis by (simp add: js_sort_sort_key sorted_map)
qed

lemma js_sort_stable:
  "filter (\<lambda>e. total_score e = k) (js_sort by_score_desc xs)
     = filter (\<lambda>e. total_score e = k) xs"
proof -
  have "filter (\<lambda>y. - total_score y = - k) (sort_key (\<lambda>e. - total_score e) xs)
        = filter (\<lambda>y. - total_score y = - k) xs"
    by (rule sort_key_stable)
  then show ?thesis by (simp add: js_sort_sort_key)
qed

text \<open>
  The loop with every write succeeding, over entries with distinct ids: the row whose
  id is that of entry \<open>j\<close> gets the rank \<open>i + j + 1\<close>, a row whose id no entry has is
  left alone, and the other tables are not touched.
\<close>

lemma refresh_loop_rows:
  assumes "distinct (map e_id es)"
  shows "length (workshop_leaderboard (fst (refresh_loop all_ok i es (b, log))))
           = length (workshop_leaderboard b)
       \<and> (\<forall>p<length (workshop_leaderboard b).
             (\<forall>j<length es. e_id (workshop_leaderboard b ! p) = e_id (es ! j) \<longrightarrow>
                workshop_leaderboard (fst (refresh_loop all_ok i es (b, log))) ! p
                  = (workshop_leaderboard b ! p)\<lparr> rank := Some (int (i + j) + 1) \<rparr>)
           \<and> (e_id (workshop_leaderboard b ! p) \<notin> e_id ` set es \<longrightarrow>
                workshop_leaderboard (fst (refresh_loop all_ok i es (b, log))) ! p
                  = workshop_leaderboard b ! p))
       \<and> workshops (fst (refresh_loop all_ok i es (b, log))) = workshops b
       \<and> workshop_tasks (fst (refresh_loop all_ok i es (b, log))) = workshop_tasks b"
  using assms
proof (induction es arbitrary: i b log)
  case Nil
  then show ?case by simp
next
  case (Cons e es)
  let ?r = "UpdateWorkshopLeaderboard \<lparr> set_rank = Some (int i + 1), set_total_score = None \<rparr>
              (e_id e)"
  let ?b1 = "apply_request ?r b"
  let ?rows = "workshop_leaderboard b"
  let ?rows1 = "workshop_leaderboard ?b1"
  let ?res = "fst (refresh_loop all_ok (Suc i) es (?b1, log @ [?r]))"
  have step: "fst (refresh_loop all_ok i (e # es) (b, log)) = ?res"
    by (simp add: all_ok_def)
  from Cons.prems have d: "distinct (map e_id es)" and fresh: "e_id e \<notin> e_id ` set es"
    by auto
  note IH = Cons.IH [OF d, of "Suc i" ?b1 "log @ [?r]"]
  have len1: "length ?rows1 = length ?rows" by simp
  have ids1: "\<And>p. p < length ?rows \<Longrightarrow> e_id (?rows1 ! p) = e_id (?rows ! p)"
    by (simp add: apply_leaderboard_patch_def)
  have hit: "\<And>p. p < length ?rows \<Longrightarrow> e_id (?rows ! p) = e_id e \<Longrightarrow>
               ?rows1 ! p = (?rows ! p)\<lparr> rank := Some (int i + 1) \<rparr>"
    by (simp add: apply_leaderboard_patch_def)
  have miss: "\<And>p. p < length ?rows \<Longrightarrow> e_id (?rows ! p) \<noteq> e_id e \<Longrightarrow>
                ?rows1 ! p = ?rows ! p"
    by simp
  show ?case unfolding step
  proof (intro conjI allI impI)
    show "length (workshop_leaderboard ?res) = length ?rows" using IH len1 by simp
  next
    fix p j
    assume p: "p < length ?rows" and j: "j < length (e # es)"
      and eq: "e_id (?rows ! p) = e_id ((e # es) ! j)"
    show "workshop_leaderboard ?res ! p = (?rows ! p)\<lparr> rank := Some (int (i + j) + 1) \<rparr>"
    proof (cases j)
      case 0
      with eq have e: "e_id (?rows ! p) = e_id e" by simp
      with fresh ids1 [OF p] have "e_id (?rows1 ! p) \<notin> e_id ` set es" by simp
      with IH p len1 have "workshop_leaderboard ?res ! p = ?rows1 ! p" by simp
      with hit [OF p e] 0 show ?thesis by simp
    next
      case (Suc j')
      with j eq have j': "j' < length es" and e: "e_id (?rows ! p) = e_id (es ! j')"
        by simp_all
      then have "e_id (?rows ! p) \<in> e_id ` set es" by (metis imageI nth_mem)
      with fresh have ne: "e_id (?rows ! p) \<noteq> e_id e" by auto
      from IH p len1 j' e ids1 [OF p]
      have "workshop_leaderboard ?res ! p
              = (?rows1 ! p)\<lparr> rank := Some (int (Suc i + j') + 1) \<rparr>"
        by simp
      with miss [OF p ne] Suc show ?thesis by simp
    qed
  next
    fix p
    assume p: "p < length ?rows" and out: "e_id (?rows ! p) \<notin> e_id ` set (e # es)"
    then have ne: "e_id (?rows ! p) \<noteq> e_id e" and out': "e_id (?rows ! p) \<notin> e_id ` set es"
      by auto
    from IH p len1 out' ids1 [OF p] have "workshop_leaderboard ?res ! p = ?rows1 ! p" by simp
    with miss [OF p ne] show "workshop_leaderboard ?res ! p = ?rows ! p" by simp
  next
    show "workshops ?res = workshops b" using IH by simp
  next
    show "workshop_tasks ?res = workshop_tasks b" using IH by simp
  qed
qed

lemma four_rows:
  assumes "length xs = 4"
  shows "xs = [xs ! 0, xs ! 1, xs ! 2, xs ! 3]"
proof -
  from assms obtain a b c d where "xs = [a, b, c, d]"
    by (auto simp: eval_nat_numeral length_Suc_conv)
  then show ?thesis by simp
qed

text \<open>
  The refresh in general: the sorted list is a rearrangement of the in-memory entries in
  which no entry precedes one with a higher score and the entries of any one score keep
  the order they had; with distinct ids and every write succeeding, the row with the id
  of the entry at position \<open>i\<close> of the sorted list gets rank \<open>i + 1\<close> and keeps its
  other fields, and a row whose id no entry has keeps everything.
\<close>

lemma refresh_ranks:
  assumes "distinct (map e_id leaderboard)"
  shows "mset (js_sort by_score_desc leaderboard) = mset leaderboard
       \<and> sorted_wrt (\<lambda>a b. total_score b \<le> total_score a) (js_sort by_score_desc leaderboard)
       \<and> (\<forall>k. filter (\<lambda>e. total_score e = k) (js_sort by_score_desc leaderboard)
               = filter (\<lambda>e. total_score e = k) leaderboard)
       \<and> length (workshop_leaderboard (db (refreshLeaderboard all_ok leaderboard b)))
           = length (workshop_leaderboard b)
       \<and> (\<forall>p<length (workshop_leaderboard b).
            (\<forall>i<length leaderboard.
               e_id (workshop_leaderboard b ! p) = e_id (js_sort by_score_desc leaderboard ! i)
               \<longrightarrow> workshop_leaderboard (db (refreshLeaderboard all_ok leaderboard b)) ! p
                     = (workshop_leaderboard b ! p)\<lparr> rank := Some (int i + 1) \<rparr>)
          \<and> (e_id (workshop_leaderboard b ! p) \<notin> e_id ` set leaderboard \<longrightarrow>
               workshop_leaderboard (db (refreshLeaderboard all_ok leaderboard b)) ! p
                 = workshop_leaderboard b ! p))"
proof -
  let ?S = "js_sort by_score_desc leaderboard"
  have m: "mset ?S = mset leaderboard" by (rule js_sort_mset)
  then have "mset (map e_id ?S) = mset (map e_id leaderboard)" by simp
  with assms have d: "distinct (map e_id ?S)" by (metis mset_eq_imp_distinct_iff)
  from m have len: "length ?S = length leaderboard" by (metis size_mset)
  from m have st: "set ?S = set leaderboard" by (metis set_mset_mset)
  have dbeq: "db (refreshLeaderboard all_ok leaderboard b)
                = fst (refresh_loop all_ok 0 ?S (b, []))"
    by (simp add: refreshLeaderboard_def Let_def)
  note L = refresh_loop_rows [OF d, of 0 b "[]"]
  show ?thesis
    unfolding dbeq using m js_sort_descending js_sort_stable L len st by simp
qed

text \<open>The scores 30, 50, 50, 10 of A, B, C, D: the sorted order is B, C, A, D, and the
  rows get the ranks A = 3, B = 1, C = 2, D = 4.\<close>

lemma demo_leaderboard_distinct: "distinct (map e_id demo_leaderboard)"
  by (simp add: demo_leaderboard_def demo_entry_def)

lemma demo_leaderboard_sorted:
  "js_sort by_score_desc demo_leaderboard
     = [demo_entry ''B'' 50, demo_entry ''C'' 50, demo_entry ''A'' 30, demo_entry ''D'' 10]"
  by (simp add: js_sort_def by_score_desc_def demo_leaderboard_def demo_entry_def)

lemma demo_leaderboard_refreshed:
  "leaderboard_states (db (refreshLeaderboard all_ok demo_leaderboard demo_backend))
     = [(''A'', 30, Some 3), (''B'', 50, Some 1), (''C'', 50, Some 2), (''D'', 10, Some 4)]"
proof -
  have rows: "workshop_leaderboard demo_backend = demo_leaderboard"
    by (simp add: demo_backend_def)
  let ?rows' = "workshop_leaderboard (db (refreshLeaderboard all_ok demo_leaderboard demo_backend))"
  note T = refresh_ranks [OF demo_leaderboard_distinct, of demo_backend,
                          unfolded demo_leaderboard_sorted rows]
  from T have len: "length ?rows' = 4" by (simp add: demo_leaderboard_def)
  from T have r: "\<And>p i. p < 4 \<Longrightarrow> i < 4 \<Longrightarrow>
       e_id (demo_leaderboard ! p)
         = e_id ([demo_entry ''B'' 50, demo_entry ''C'' 50, demo_entry ''A'' 30,
                  demo_entry ''D'' 10] ! i) \<Longrightarrow>
       ?rows' ! p = (demo_leaderboard ! p)\<lparr> rank := Some (int i + 1) \<rparr>"
    by (simp add: demo_leaderboard_def)
  have "?rows' ! 0 = (demo_entry ''A'' 30)\<lparr> rank := Some 3 \<rparr>"
    using r [of 0 2] by (simp add: demo_leaderboard_def demo_entry_def)
  moreover have "?rows' ! 1 = (demo_entry ''B'' 50)\<lparr> rank := Some 1 \<rparr>"
    using r [of 1 0] by (simp add: demo_leaderboard_def demo_entry_def)
  moreover have "?rows' ! 2 = (demo_entry ''C'' 50)\<lparr> rank := Some 2 \<rparr>"
    using r [of 2 1] by (simp add: demo_leaderboard_def demo_entry_def)
  moreover have "?rows' ! 3 = (demo_entry ''D'' 10)\<lparr> rank := Some 4 \<rparr>"
    using r [of 3 3] by (simp add: demo_leaderboard_def demo_entry_def)
  moreover have "?rows' = [?rows' ! 0, ?rows' ! 1, ?rows' ! 2, ?rows' ! 3]"
    using len by (rule four_rows)
  ultimately have "?rows' = [(demo_entry ''A'' 30)\<lparr> rank := Some 3 \<rparr>,
       (demo_entry ''B'' 50)\<lparr> rank := Some 1 \<rparr>, (demo_entry ''C'' 50)\<lparr> rank := Some 2 \<rparr>,
       (demo_entry ''D'' 10)\<lparr> rank := Some 4 \<rparr>]"
    by simp
  then show ?thesis by (simp add: leaderboard_states_def demo_entry_def)
qed

text \<open>
  C7, as amended. \<open>refreshLeaderboard\<close> orders the in-memory entries by a stable sort
  on \<open>total_score\<close>, descending: the sorted list is a rearrangement of the entries, no
  entry precedes one with a higher score, and the entries of any one score keep the
  order they had. With distinct ids and every write succeeding, the row with the id of
  the entry at position \<open>i\<close> of the sorted list gets rank \<open>i + 1\<close> and keeps its other
  fields, and a row whose id no entry has keeps everything. On the scores 30, 50, 50, 10
  of A, B, C, D the sorted order is B, C, A, D, with B before C, and the ranks are
  A = 3, B = 1, C = 2, D = 4.
\<close>

theorem refreshLeaderboard_stable_ranks:
  assumes "distinct (map e_id leaderboard)"
  shows "mset (js_sort by_score_desc leaderboard) = mset leaderboard
       \<and> sorted_wrt (\<lambda>a b. total_score b \<le> total_score a) (js_sort by_score_desc leaderboard)
       \<and> (\<forall>k. filter (\<lambda>e. total_score e = k) (js_sort by_score_desc leaderboard)
               = filter (\<lambda>e. total_score e = k) leaderboard)
       \<and> length (workshop_leaderboard (db (refreshLeaderboard all_ok leaderboard b)))
           = length (workshop_leaderboard b)
       \<and> (\<forall>p<length (workshop_leaderboard b).
            (\<forall>i<length leaderboard.
               e_id (workshop_leaderboard b ! p) = e_id (js_sort by_score_desc leaderboard ! i)
               \<longrightarrow> workshop_leaderboard (db (refreshLeaderboard all_ok leaderboard b)) ! p
                     = (workshop_leaderboard b ! p)\<lparr> rank := Some (int i + 1) \<rparr>)
          \<and> (e_id (workshop_leaderboard b ! p) \<notin> e_id ` set leaderboard \<longrightarrow>
               workshop_leaderboard (db (refreshLeaderboard all_ok leaderboard b)) ! p
                 = workshop_leaderboard b ! p))
       \<and> map e_id (js_sort by_score_desc demo_leaderboard) = [''B'', ''C'', ''A'', ''D'']
       \<and> leaderboard_states (db (refreshLeaderboard all_ok demo_leaderboard demo_backend))
           = [(''A'', 30, Some 3), (''B'', 50, Some 1), (''C'', 50, Some 2), (''D'', 10, Some 4)]"
proof -
  have "map e_id (js_sort by_score_desc demo_leaderboard) = [''B'', ''C'', ''A'', ''D'']"
    unfolding demo_leaderboard_sorted by (simp add: demo_entry_def)
  with refresh_ranks [OF assms, of b] demo_leaderboard_refreshed show ?thesis
    by (elim conjE, intro conjI) assumption+
qed

text \<open>The theorem at the four entries themselves, whose ids are distinct: the row of A,
  at position 2 of the sorted list, has rank 3, and the row of D, at position 3, has
  rank 4.\<close>

theorem refreshLeaderboard_stable_ranks_witness:
  "distinct (map e_id demo_leaderboard)
   \<and> length (workshop_leaderboard (db (refreshLeaderboard all_ok demo_leaderboard demo_backend)))
       = 4
   \<and> workshop_leaderboard (db (refreshLeaderboard all_ok demo_leaderboard demo_backend)) ! 0
       = (demo_entry ''A'' 30)\<lparr> rank := Some 3 \<rparr>
   \<and> workshop_leaderboard (db (refreshLeaderboard all_ok demo_leaderboard demo_backend)) ! 3
       = (demo_entry ''D'' 10)\<lparr> rank := Some 4 \<rparr>
   \<and> leaderboard_states (db (refreshLeaderboard all_ok demo_leaderboard demo_backend))
       = [(''A'', 30, Some 3), (''B'', 50, Some 1), (''C'', 50, Some 2), (''D'', 10, Some 4)]"
proof -
  have rows: "workshop_leaderboard demo_backend = demo_leaderboard"
    by (simp add: demo_backend_def)
  let ?rows' = "workshop_leaderboard (db (refreshLeaderboard all_ok demo_leaderboard demo_backend))"
  note T = refreshLeaderboard_stable_ranks
             [OF demo_leaderboard_distinct, of demo_backend, unfolded demo_leaderboard_sorted rows]
  from T have len: "length ?rows' = 4" by (simp add: demo_leaderboard_def)
  from T have r: "\<And>p i. p < 4 \<Longrightarrow> i < 4 \<Longrightarrow>
       e_id (demo_leaderboard ! p)
         = e_id ([demo_entry ''B'' 50, demo_entry ''C'' 50, demo_entry ''A'' 30,
                  demo_entry ''D'' 10] ! i) \<Longrightarrow>
       ?rows' ! p = (demo_leaderboard ! p)\<lparr> rank := Some (int i + 1) \<rparr>"
    by (simp add: demo_leaderboard_def)
  have a: "?rows' ! 0 = (demo_entry ''A'' 30)\<lparr> rank := Some 3 \<rparr>"
    using r [of 0 2] by (simp add: demo_leaderboard_def demo_entry_def)
  have d: "?rows' ! 3 = (demo_entry ''D'' 10)\<lparr> rank := Some 4 \<rparr>"
    using r [of 3 3] by (simp add: demo_leaderboard_def demo_entry_def)
  from T have s: "leaderboard_states (db (refreshLeaderboard all_ok demo_leaderboard demo_backend))
       = [(''A'', 30, Some 3), (''B'', 50, Some 1), (''C'', 50, Some 2), (''D'', 10, Some 4)]"
    by (elim conjE)
  from demo_leaderboard_distinct len a d s show ?thesis by (intro conjI)
qed

text \<open>
  The ranks the claim gives for that input, A = 4 and D = 3, are not the ranks the
  refresh writes.
\<close>

theorem refreshLeaderboard_example_counterexample:
  "leaderboard_states (db (refreshLeaderboard all_ok demo_leaderboard demo_backend))
     \<noteq> [(''A'', 30, Some 4), (''B'', 50, Some 1), (''C'', 50, Some 2), (''D'', 10, Some 3)]"
  by (simp add: refreshLeaderboard_def js_sort_def by_score_desc_def all_ok_def
        leaderboard_states_def demo_backend_def demo_leaderboard_def demo_entry_def
        apply_leaderboard_patch_def)

lemma rank_of_rescored:
  "map rank (map (\<lambda>x. if e_id x = i then x\<lparr> total_score := v \<rparr> else x) xs) = map rank xs"
  by (induction xs) simp_all

text \<open>
  C8. For every selected entry and every adjustment, whatever the outcome of the write,
  \<open>handleAdjustPoints\<close> leaves the rank of every row as it was: its one request names
  no rank and carries the sum, as numbers, of the entry's score and the adjustment.
  When the score, the adjustment and their sum are safe integers, so that the sum of the
  numbers is the sum of the integers, and the write succeeds, the rows with the entry's
  id hold the entry's score plus the adjustment, with no lower bound, and every other
  row is unchanged.
\<close>

theorem handleAdjustPoints_keeps_ranks:
  "map rank (workshop_leaderboard (db (handleAdjustPoints w (Some e) delta b)))
     = map rank (workshop_leaderboard b)
   \<and> sent (handleAdjustPoints w (Some e) delta b)
     = [UpdateWorkshopLeaderboard
          \<lparr> set_rank = None, set_total_score = Some (js_add (total_score e) delta) \<rparr> (e_id e)]
   \<and> (safe_integer (total_score e) \<and> safe_integer delta \<and> safe_integer (total_score e + delta)
      \<longrightarrow>
        workshop_leaderboard (db (handleAdjustPoints Ok (Some e) delta b))
          = map (\<lambda>x. if e_id x = e_id e then x\<lparr> total_score := total_score e + delta \<rparr> else x)
                (workshop_leaderboard b)
      \<and> (e \<in> set (workshop_leaderboard b) \<longrightarrow>
           e\<lparr> total_score := total_score e + delta \<rparr>
             \<in> set (workshop_leaderboard (db (handleAdjustPoints Ok (Some e) delta b))))
      \<and> sent (handleAdjustPoints w (Some e) delta b)
          = [UpdateWorkshopLeaderboard
               \<lparr> set_rank = None, set_total_score = Some (total_score e + delta) \<rparr> (e_id e)])"
proof (intro conjI impI)
  show "map rank (workshop_leaderboard (db (handleAdjustPoints w (Some e) delta b)))
          = map rank (workshop_leaderboard b)"
    by (cases w)
       (simp_all add: handleAdjustPoints_def apply_leaderboard_patch_def Let_def rank_of_rescored)
  show request: "sent (handleAdjustPoints w (Some e) delta b)
     = [UpdateWorkshopLeaderboard
          \<lparr> set_rank = None, set_total_score = Some (js_add (total_score e) delta) \<rparr> (e_id e)]"
    by (simp add: handleAdjustPoints_def Let_def)
  assume safe: "safe_integer (total_score e) \<and> safe_integer delta
                  \<and> safe_integer (total_score e + delta)"
  then have plus: "js_add (total_score e) delta = total_score e + delta"
    by (simp add: js_add_safe)
  let ?rescore = "\<lambda>x. if e_id x = e_id e then x\<lparr> total_score := total_score e + delta \<rparr> else x"
  show rows: "workshop_leaderboard (db (handleAdjustPoints Ok (Some e) delta b))
                = map ?rescore (workshop_leaderboard b)"
    by (simp add: handleAdjustPoints_def apply_leaderboard_patch_def Let_def plus)
  show "sent (handleAdjustPoints w (Some e) delta b)
          = [UpdateWorkshopLeaderboard
               \<lparr> set_rank = None, set_total_score = Some (total_score e + delta) \<rparr> (e_id e)]"
    using request unfolding plus .
  assume mem: "e \<in> set (workshop_leaderboard b)"
  have "?rescore e = e\<lparr> total_score := total_score e + delta \<rparr>" by simp
  with imageI [OF mem, of ?rescore]
  show "e\<lparr> total_score := total_score e + delta \<rparr>
          \<in> set (workshop_leaderboard (db (handleAdjustPoints Ok (Some e) delta b)))"
    unfolding rows set_map by (simp only:)
qed

text \<open>Entry A, at 30 points, adjusted by -45: the three numbers are safe integers, the
  score is -15 and no rank has moved.\<close>

theorem handleAdjustPoints_keeps_ranks_witness:
  "safe_integer (total_score (demo_entry ''A'' 30)) \<and> safe_integer (- 45)
   \<and> safe_integer (total_score (demo_entry ''A'' 30) + - 45)
   \<and> demo_entry ''A'' 30 \<in> set (workshop_leaderboard demo_backend)
   \<and> leaderboard_states (db (handleAdjustPoints Ok (Some (demo_entry ''A'' 30)) (- 45)
                               demo_backend))
       = [(''A'', - 15, None), (''B'', 50, None), (''C'', 50, None), (''D'', 10, None)]"
proof -
  have safe: "safe_integer (total_score (demo_entry ''A'' 30)) \<and> safe_integer (- 45)
                \<and> safe_integer (total_score (demo_entry ''A'' 30) + - 45)"
    by (simp add: safe_integer_def demo_entry_def)
  have mem: "demo_entry ''A'' 30 \<in> set (workshop_leaderboard demo_backend)"
    by (simp add: demo_backend_def demo_leaderboard_def)
  from handleAdjustPoints_keeps_ranks [of Ok "demo_entry ''A'' 30" "- 45" demo_backend] safe
  have "workshop_leaderboard (db (handleAdjustPoints Ok (Some (demo_entry ''A'' 30)) (- 45)
                                    demo_backend))
          = map (\<lambda>x. if e_id x = e_id (demo_entry ''A'' 30)
                      then x\<lparr> total_score := total_score (demo_entry ''A'' 30) + - 45 \<rparr> else x)
                (workshop_leaderboard demo_backend)"
    by blast
  then have "leaderboard_states (db (handleAdjustPoints Ok (Some (demo_entry ''A'' 30)) (- 45)
                                       demo_backend))
       = [(''A'', - 15, None), (''B'', 50, None), (''C'', 50, None), (''D'', 10, None)]"
    by (simp add: leaderboard_states_def demo_backend_def demo_leaderboard_def demo_entry_def)
  with safe mem show ?thesis by (intro conjI) (elim conjE, assumption)+
qed

subsection \<open>Group codes\<close>

lemma upper_digits:
  "map (\<lambda>d. upper_char (digit_char d)) [0..<36] = ''0123456789ABCDEFGHIJKLMNOPQRSTUVWXYZ''"
  by code_simp

lemma digit_upper:
  assumes "d < 36"
  shows "code_char (upper_char (digit_char d))"
proof -
  from assms have "upper_char (digit_char d) = map (\<lambda>d. upper_char (digit_char d)) [0..<36] ! d"
    by simp
  moreover from assms have "d < length (map (\<lambda>d. upper_char (digit_char d)) [0..<36])"
    by simp
  ultimately have "upper_char (digit_char d) \<in> set (map (\<lambda>d. upper_char (digit_char d)) [0..<36])"
    by (metis nth_mem)
  then show ?thesis unfolding upper_digits code_char_def .
qed

lemma zero_upper: "code_char (upper_char CHR ''0'')"
  using digit_upper [of 0] by (simp add: digit_char_def)

text \<open>What does hold for every random value: the code has at most six characters, all
  of them from \<^verbatim>\<open>[A-Z0-9]\<close>, and exactly as many as the rendering has digits after
  the point, up to six.\<close>

lemma generateCode_alphabet:
  assumes "well_formed r"
  shows "list_all code_char (generateCode r)"
proof (cases r)
  case RZero
  then show ?thesis by (simp add: generateCode_def substring_def toUpperCase_def)
next
  case (RDigits z ds)
  with assms have "list_all (\<lambda>d. d < 36) ds" by simp
  then have "list_all code_char (map upper_char (replicate z CHR ''0'' @ map digit_char ds))"
    using zero_upper digit_upper by (auto simp: list_all_iff)
  then have "list_all code_char
               (take 6 (map upper_char (replicate z CHR ''0'' @ map digit_char ds)))"
    by (auto simp: list_all_iff dest: in_set_takeD)
  with RDigits show ?thesis
    by (simp add: generateCode_def substring_def toUpperCase_def take_map)
qed

lemma generateCode_length:
  "length (generateCode RZero) = 0"
  "length (generateCode (RDigits z ds)) = min 6 (z + length ds)"
  by (simp_all add: generateCode_def substring_def toUpperCase_def)

text \<open>
  C9. The code at the random value one half. Its rendering in radix 36 is \<^verbatim>\<open>0.i\<close>,
  three characters, so \<^verbatim>\<open>substring(2, 8)\<close> has one character to take: the code is
  \<^verbatim>\<open>I\<close>, not six characters long. At the random value zero the rendering is
  \<^verbatim>\<open>0\<close> and the code is empty.
\<close>

theorem generateCode_short:
  "well_formed (RDigits 0 [18])
   \<and> toString36 (RDigits 0 [18]) = ''0.i''
   \<and> generateCode (RDigits 0 [18]) = ''I''
   \<and> length (generateCode (RDigits 0 [18])) \<noteq> 6
   \<and> generateCode RZero = []"
proof -
  have wf: "well_formed (RDigits 0 [18])" by simp
  have rendered: "toString36 (RDigits 0 [18]) = ''0.i''" by (simp add: digit_char_def)
  have code: "generateCode (RDigits 0 [18]) = ''I''" by code_simp
  have short: "length (generateCode (RDigits 0 [18])) \<noteq> 6" unfolding code by simp
  have empty: "generateCode RZero = []" by code_simp
  from wf rendered code short empty show ?thesis by (intro conjI)
qed

end
